theory Spec2Isabelle
  imports Complex_Main "HOL-Library.Word"
begin

section \<open>JavaScript strings and values\<close>

text \<open>
  A JavaScript string is a sequence of 16-bit code units. The string literals of
  \<^verbatim>\<open>App.jsx\<close> are ASCII, so \<open>js\<close> reads one from an Isabelle string.
\<close>

type_synonym cu = "16 word"
type_synonym jsstring = "cu list"

definition js :: "string \<Rightarrow> jsstring" where
  "js s = map (\<lambda>c. of_nat (of_char c)) s"

text \<open>
  The values the front end handles: the body of the HTTP response is parsed JSON, and
  a property that is missing reads as \<open>Undefined\<close>. A JSON number is a finite
  decimal; the only thing the program asks of a number is whether it is zero.
  An object is the list of its own properties (keys distinct, as after parsing).
\<close>

datatype jsval =
    Undefined
  | Null
  | Bool bool
  | Num rat
  | Str jsstring
  | Arr "jsval list"
  | Obj "(jsstring \<times> jsval) list"

datatype js_error = TypeError

text \<open>ToBoolean: what \<^verbatim>\<open>!t\<close> and \<^verbatim>\<open>res && ...\<close> test.\<close>

fun truthy :: "jsval \<Rightarrow> bool" where
  "truthy Undefined = False"
| "truthy Null = False"
| "truthy (Bool b) = b"
| "truthy (Num n) = (n \<noteq> 0)"
| "truthy (Str s) = (s \<noteq> [])"
| "truthy (Arr xs) = True"
| "truthy (Obj ps) = True"

text \<open>
  Reading a property \<^verbatim>\<open>v.k\<close>, for the keys the program reads (\<open>status\<close>, \<open>data\<close>,
  \<open>message\<close>, \<open>fields\<close>, the five field keys and \<open>value\<close>): on \<open>undefined\<close> and
  \<open>null\<close> it throws a TypeError, on an object it is the property or \<open>undefined\<close>, and
  on a number, boolean, string or array it is \<open>undefined\<close>, since no prototype has a
  property of one of these names. \<^verbatim>\<open>v?.k\<close> is \<open>undefined\<close> where \<^verbatim>\<open>v.k\<close> would throw.
\<close>

fun get_prop :: "jsval \<Rightarrow> jsstring \<Rightarrow> js_error + jsval" where
  "get_prop Undefined k = Inl TypeError"
| "get_prop Null k = Inl TypeError"
| "get_prop (Obj ps) k = Inr (case map_of ps k of None \<Rightarrow> Undefined | Some v \<Rightarrow> v)"
| "get_prop v k = Inr Undefined"

fun get_opt :: "jsval \<Rightarrow> jsstring \<Rightarrow> jsval" where
  "get_opt (Obj ps) k = (case map_of ps k of None \<Rightarrow> Undefined | Some v \<Rightarrow> v)"
| "get_opt v k = Undefined"

text \<open>
  Errors in sequence: the first error thrown ends the evaluation.
\<close>

definition bind_err :: "'e + 'a \<Rightarrow> ('a \<Rightarrow> 'e + 'b) \<Rightarrow> 'e + 'b" where
  "bind_err x f = (case x of Inl e \<Rightarrow> Inl e | Inr a \<Rightarrow> f a)"

section \<open>Regular expressions\<close>

text \<open>
  \<^verbatim>\<open>\s\<close> in a regular expression, and the characters \<^verbatim>\<open>trim()\<close> removes: the
  WhiteSpace and LineTerminator code points of ECMAScript.
\<close>

definition is_space :: "cu \<Rightarrow> bool" where
  "is_space c \<longleftrightarrow>
     c \<in> set [0x9, 0xA, 0xB, 0xC, 0xD, 0x20, 0xA0, 0x1680,
               0x2028, 0x2029, 0x202F, 0x205F, 0x3000, 0xFEFF]
       \<or> (0x2000 \<le> c \<and> c \<le> 0x200A)"

text \<open>
  Canonicalize under the \<^verbatim>\<open>i\<close> flag (without \<^verbatim>\<open>u\<close>): a character is compared after
  upper-casing, and a code unit from 128 on is never mapped below 128. The patterns of
  the program are ASCII, so upper-casing the ASCII letters decides every comparison.
\<close>

definition canonicalize :: "cu \<Rightarrow> cu" where
  "canonicalize c = (if 0x61 \<le> c \<and> c \<le> 0x7A then c - 0x20 else c)"

text \<open>
  The pattern language the program uses: \<^verbatim>\<open>^\<close>, a character, a class (\<^verbatim>\<open>\s\<close>,
  \<^verbatim>\<open>[:\-]\<close>, \<^verbatim>\<open>[:;]\<close>), sequence, alternation, the greedy quantifiers \<^verbatim>\<open>*\<close> and
  \<^verbatim>\<open>?\<close> (\<^verbatim>\<open>r+\<close> is \<open>Seq r (Star r)\<close>), and a capturing group.
\<close>

datatype rx =
    Eps
  | Bol
  | Chr cu
  | Cls "cu \<Rightarrow> bool"
  | Seq rx rx
  | Alt rx rx
  | Star rx
  | Opt rx
  | Grp rx

text \<open>
  A matcher state: how many code units lie before the current position, the input
  from the current position on, and the captures closed so far (in closing order,
  which is the group numbering for the patterns here: each has one group).
\<close>

record mstate =
  seen :: nat
  rest :: jsstring
  caps :: "jsstring list"

definition advance :: "mstate \<Rightarrow> mstate" where
  "advance st = st\<lparr>seen := Suc (seen st), rest := tl (rest st)\<rparr>"

text \<open>
  The backtracking matcher, as the list of its successes in the order backtracking
  tries them: the head is the match the engine reports. A greedy quantifier tries one
  more iteration before it tries to stop, and an iteration that consumes nothing is
  refused (as RepeatMatcher does).
\<close>

function matches :: "bool \<Rightarrow> rx \<Rightarrow> mstate \<Rightarrow> mstate list" where
  "matches ic Eps st = [st]"
| "matches ic Bol st = (if seen st = 0 then [st] else [])"
| "matches ic (Chr p) st =
     (case rest st of
        [] \<Rightarrow> []
      | c # cs \<Rightarrow>
          if (if ic then canonicalize c = canonicalize p else c = p) then [advance st] else [])"
| "matches ic (Cls P) st =
     (case rest st of [] \<Rightarrow> [] | c # cs \<Rightarrow> if P c then [advance st] else [])"
| "matches ic (Seq r1 r2) st = concat (map (matches ic r2) (matches ic r1 st))"
| "matches ic (Alt r1 r2) st = matches ic r1 st @ matches ic r2 st"
| "matches ic (Star r) st =
     concat (map (\<lambda>st'. if length (rest st') < length (rest st)
                         then matches ic (Star r) st' else [])
                 (matches ic r st)) @ [st]"
| "matches ic (Opt r) st = matches ic r st @ [st]"
| "matches ic (Grp r) st =
     map (\<lambda>st'. st'\<lparr>caps := caps st' @ [take (seen st' - seen st) (rest st)]\<rparr>)
         (matches ic r st)"
  by pat_completeness auto
termination
  by (relation "measures [\<lambda>(ic, r, st). size r, \<lambda>(ic, r, st). length (rest st)]") auto

primrec chars :: "jsstring \<Rightarrow> rx" where
  "chars [] = Eps"
| "chars (c # cs) = Seq (Chr c) (chars cs)"

definition start_at :: "nat \<Rightarrow> jsstring \<Rightarrow> mstate" where
  "start_at i s = \<lparr>seen = i, rest = s, caps = []\<rparr>"

text \<open>
  RegExpBuiltinExec: the first index, from \<open>i\<close> on, at which the pattern matches.
  The result is the text skipped before the match and the state after it.
\<close>

fun exec :: "bool \<Rightarrow> rx \<Rightarrow> nat \<Rightarrow> jsstring \<Rightarrow> (jsstring \<times> mstate) option" where
  "exec ic r i [] =
     (case matches ic r (start_at i []) of m # ms \<Rightarrow> Some ([], m) | [] \<Rightarrow> None)"
| "exec ic r i (c # cs) =
     (case matches ic r (start_at i (c # cs)) of
        m # ms \<Rightarrow> Some ([], m)
      | [] \<Rightarrow> map_option (\<lambda>(pre, m). (c # pre, m)) (exec ic r (Suc i) cs))"

text \<open>
  A replacement string: literal text and \<^verbatim>\<open>$n\<close> references (one digit). A reference
  to a group the pattern does not have stays as the two characters.
\<close>

datatype ritem = Text jsstring | Ref nat

fun expand :: "ritem list \<Rightarrow> jsstring list \<Rightarrow> jsstring" where
  "expand [] cs = []"
| "expand (Text t # is) cs = t @ expand is cs"
| "expand (Ref n # is) cs =
     (if 1 \<le> n \<and> n \<le> length cs then cs ! (n - 1) else [0x24, 0x30 + of_nat n]) @ expand is cs"

definition replace_first :: "bool \<Rightarrow> rx \<Rightarrow> ritem list \<Rightarrow> jsstring \<Rightarrow> jsstring" where
  "replace_first ic r tpl s =
     (case exec ic r 0 s of
        None \<Rightarrow> s
      | Some (pre, m) \<Rightarrow> pre @ expand tpl (caps m) @ rest m)"

text \<open>
  With the \<^verbatim>\<open>g\<close> flag every match is replaced, left to right, each search starting
  where the last match ended; after an empty match the search moves on by one code
  unit, which is copied.
\<close>

function replace_all :: "bool \<Rightarrow> rx \<Rightarrow> ritem list \<Rightarrow> nat \<Rightarrow> jsstring \<Rightarrow> jsstring" where
  "replace_all ic r tpl i s =
     (case matches ic r (start_at i s) of
        m # ms \<Rightarrow>
          if length (rest m) < length s
          then expand tpl (caps m) @ replace_all ic r tpl (seen m) (rest m)
          else expand tpl (caps m) @
               (case s of [] \<Rightarrow> [] | c # cs \<Rightarrow> c # replace_all ic r tpl (Suc i) cs)
      | [] \<Rightarrow> (case s of [] \<Rightarrow> [] | c # cs \<Rightarrow> c # replace_all ic r tpl (Suc i) cs))"
  by pat_completeness auto
termination
  by (relation "measure (\<lambda>(ic, r, tpl, i, s). length s)") auto

declare replace_all.simps [simp del]

record regexp =
  pattern :: rx
  ignore_case :: bool
  global :: bool

text \<open>\<^verbatim>\<open>String.prototype.replace\<close> with a regular expression and a replacement string.\<close>

definition replace :: "regexp \<Rightarrow> ritem list \<Rightarrow> jsstring \<Rightarrow> jsstring" where
  "replace re tpl s =
     (if global re then replace_all (ignore_case re) (pattern re) tpl 0 s
      else replace_first (ignore_case re) (pattern re) tpl s)"

text \<open>\<^verbatim>\<open>String.prototype.trim\<close>.\<close>

definition trim :: "jsstring \<Rightarrow> jsstring" where
  "trim s = rev (dropWhile is_space (rev (dropWhile is_space s)))"

section \<open>cleanText\<close>

text \<open>
  \<^verbatim>\<open>/^(BillingCycle|Card Type|Card Last 4 Digits|Payment Due Date|Total Balance Due)\s*[:\-]?\s*/i\<close>
\<close>

definition labels :: "jsstring list" where
  "labels = [js ''BillingCycle'', js ''Card Type'', js ''Card Last 4 Digits'',
             js ''Payment Due Date'', js ''Total Balance Due'']"

definition is_sep :: "cu \<Rightarrow> bool" where
  "is_sep c \<longleftrightarrow> c = 0x3A \<or> c = 0x2D"

definition label_re :: regexp where
  "label_re =
     \<lparr>pattern =
        Seq Bol
         (Seq (Grp (Alt (chars (js ''BillingCycle''))
                   (Alt (chars (js ''Card Type''))
                   (Alt (chars (js ''Card Last 4 Digits''))
                   (Alt (chars (js ''Payment Due Date''))
                        (chars (js ''Total Balance Due'')))))))
         (Seq (Star (Cls is_space)) (Seq (Opt (Cls is_sep)) (Star (Cls is_space))))),
      ignore_case = True, global = False\<rparr>"

text \<open>\<^verbatim>\<open>/\s+/g\<close>\<close>

definition spaces_re :: regexp where
  "spaces_re =
     \<lparr>pattern = Seq (Cls is_space) (Star (Cls is_space)), ignore_case = False, global = True\<rparr>"

text \<open>\<^verbatim>\<open>/\s([:;])/g\<close>\<close>

definition is_punct :: "cu \<Rightarrow> bool" where
  "is_punct c \<longleftrightarrow> c = 0x3A \<or> c = 0x3B"

definition punct_re :: regexp where
  "punct_re =
     \<lparr>pattern = Seq (Cls is_space) (Grp (Cls is_punct)), ignore_case = False, global = True\<rparr>"

text \<open>
  \<^verbatim>\<open>
  const cleanText = (t) => {
    if (!t) return "";
    t = t.replace(/^(...)\s*[:\-]?\s*/i, "");
    return t.replace(/\s+/g, " ").replace(/\s([:;])/g, "$1").trim();
  };
  \<close>
  A truthy value that is not a string has no method \<open>replace\<close>: the call throws.
\<close>

definition clean_string :: "jsstring \<Rightarrow> jsstring" where
  "clean_string s =
     trim (replace punct_re [Ref 1] (replace spaces_re [Text (js '' '')] (replace label_re [] s)))"

definition cleanText :: "jsval \<Rightarrow> js_error + jsstring" where
  "cleanText t =
     (if \<not> truthy t then Inr []
      else case t of Str s \<Rightarrow> Inr (clean_string s) | _ \<Rightarrow> Inl TypeError)"

section \<open>The upload handler\<close>

text \<open>
  The component's state (\<^verbatim>\<open>useState\<close>): the chosen file, the displayed result and
  the loading flag. The file (\<open>file'\<close>) is \<open>null\<close> at first and then whatever
  \<^verbatim>\<open>e.target.files[0]\<close> was: a File, or \<open>undefined\<close> when the selection was
  cancelled.
\<close>

datatype chosen = FNull | FUndefined | FFile jsstring

fun has_file :: "chosen \<Rightarrow> bool" where
  "has_file (FFile f) = True"
| "has_file c = False"

record app_state =
  file' :: chosen
  res :: jsval
  loading :: bool

definition initial :: app_state where
  "initial = \<lparr>file' = FNull, res = Null, loading = False\<rparr>"

text \<open>
  What a run of \<open>upload\<close> does to the outside, in order: an alert, the POST of the
  form data (its \<open>file\<close> entry) to a URL, a line on the console.
\<close>

datatype thrown = JsError js_error | Reason jsstring

datatype effect =
    Alert jsstring
  | Post jsstring chosen
  | ConsoleError thrown

text \<open>
  How the awaited request settles: fulfilled with a response whose \<open>data\<close> is the
  parsed body, or rejected (network error, or a status code outside 2xx).
\<close>

datatype outcome = Fulfilled jsval | Rejected jsstring

text \<open>
  ToString of the right operand of \<^verbatim>\<open>"Parsing failed: " + r.data.message\<close>. A
  primitive prints as itself; how a number prints is the parameter \<open>h\<close>. An object
  or an array is first converted to a primitive: \<^verbatim>\<open>valueOf\<close> (inherited, or an own
  property that parsed JSON cannot make callable) gives none, so \<^verbatim>\<open>toString\<close>
  decides. An object prints as \<^verbatim>\<open>[object Object]\<close> through the inherited method,
  unless it has an own property \<^verbatim>\<open>toString\<close>, which is not callable: then the
  conversion throws a TypeError. An array prints its elements joined by commas,
  \<open>null\<close> and \<open>undefined\<close> as nothing, and throws where an element does.
\<close>

fun join_err :: "(js_error + jsstring) list \<Rightarrow> js_error + jsstring" where
  "join_err [] = Inr []"
| "join_err [x] = x"
| "join_err (x # y # ys) =
     bind_err x (\<lambda>a. bind_err (join_err (y # ys)) (\<lambda>b. Inr (a @ 0x2C # b)))"

fun to_string :: "(rat \<Rightarrow> jsstring) \<Rightarrow> jsval \<Rightarrow> js_error + jsstring" where
  "to_string h (Str s) = Inr s"
| "to_string h Undefined = Inr (js ''undefined'')"
| "to_string h Null = Inr (js ''null'')"
| "to_string h (Bool b) = Inr (if b then js ''true'' else js ''false'')"
| "to_string h (Num n) = Inr (h n)"
| "to_string h (Obj ps) =
     (if map_of ps (js ''toString'') = None then Inr (js ''[object Object]'') else Inl TypeError)"
| "to_string h (Arr xs) =
     join_err (map (\<lambda>x. if x = Undefined \<or> x = Null then Inr [] else to_string h x) xs)"

text \<open>
  The part of \<open>upload\<close> that runs at once, up to the \<^verbatim>\<open>await\<close>:
  \<^verbatim>\<open>
    if (!file) return alert("Please choose a PDF file first!");
    setLoading(true);
    const formData = new FormData();
    formData.append("file", file);
    ... axios.post("http://127.0.0.1:8000/parse/", formData, ...)
  \<close>
  The run is suspended on a request exactly when it has emitted a \<open>Post\<close>.
\<close>

definition upload_begin :: "app_state \<Rightarrow> app_state \<times> effect list" where
  "upload_begin s =
     (if \<not> has_file (file' s) then (s, [Alert (js ''Please choose a PDF file first!'')])
      else (s\<lparr>loading := True\<rparr>, [Post (js ''http://127.0.0.1:8000/parse/'') (file' s)]))"

fun is_post :: "effect \<Rightarrow> bool" where
  "is_post (Post u f) = True"
| "is_post e = False"

text \<open>
  The body of the \<^verbatim>\<open>try\<close> after the response has arrived:
  \<^verbatim>\<open>
    if (r.data.status === "success") { setRes(r.data.data); }
    else { alert("Parsing failed: " + r.data.message); }
  \<close>
  \<open>Inl\<close> is a TypeError thrown by a property read on a \<open>null\<close> or \<open>undefined\<close> body,
  or by the conversion of the message to a string; the alert is not reached then.
\<close>

definition on_response ::
  "(rat \<Rightarrow> jsstring) \<Rightarrow> jsval \<Rightarrow> app_state \<Rightarrow> js_error + app_state \<times> effect list" where
  "on_response h d s =
     (case get_prop d (js ''status'') of
        Inl e \<Rightarrow> Inl e
      | Inr st \<Rightarrow>
          if st = Str (js ''success'')
          then (case get_prop d (js ''data'') of
                  Inl e \<Rightarrow> Inl e
                | Inr v \<Rightarrow> Inr (s\<lparr>res := v\<rparr>, []))
          else (case get_prop d (js ''message'') of
                  Inl e \<Rightarrow> Inl e
                | Inr m \<Rightarrow>
                    (case to_string h m of
                       Inl e \<Rightarrow> Inl e
                     | Inr t \<Rightarrow> Inr (s, [Alert (js ''Parsing failed: '' @ t)]))))"

text \<open>\<^verbatim>\<open>catch (e) { console.error(e); alert("Error uploading file!"); }\<close>\<close>

definition on_catch :: "thrown \<Rightarrow> effect list" where
  "on_catch e = [ConsoleError e, Alert (js ''Error uploading file!'')]"

text \<open>
  The rest of \<open>upload\<close>, run when the request settles, on the state of that moment:
  the \<^verbatim>\<open>try\<close> body or the \<^verbatim>\<open>catch\<close> block, then
  \<^verbatim>\<open>finally { setLoading(false); }\<close>.
\<close>

definition upload_resume ::
  "(rat \<Rightarrow> jsstring) \<Rightarrow> outcome \<Rightarrow> app_state \<Rightarrow> app_state \<times> effect list" where
  "upload_resume h out s =
     (let (s', es) =
        (case out of
           Fulfilled d \<Rightarrow>
             (case on_response h d s of
                Inr x \<Rightarrow> x
              | Inl e \<Rightarrow> (s, on_catch (JsError e)))
         | Rejected why \<Rightarrow> (s, on_catch (Reason why)))
      in (s'\<lparr>loading := False\<rparr>, es))"

text \<open>
  A whole run, nothing else happening meanwhile: the part up to the \<^verbatim>\<open>await\<close> and,
  when the request settles with an outcome, the rest. \<open>None\<close> is a request that
  never settles: the run stays suspended.
\<close>

definition upload ::
  "(rat \<Rightarrow> jsstring) \<Rightarrow> outcome option \<Rightarrow> app_state \<Rightarrow> app_state \<times> effect list" where
  "upload h out s =
     (let (s1, es1) = upload_begin s
      in if list_ex is_post es1
         then (case out of
                 None \<Rightarrow> (s1, es1)
               | Some settled \<Rightarrow> (let (s2, es2) = upload_resume h settled s1 in (s2, es1 @ es2)))
         else (s1, es1))"

text \<open>Example states and bodies.\<close>

definition picked :: app_state where
  "picked = initial\<lparr>file' := FFile (js ''a.pdf'')\<rparr>"

definition failed_body :: jsval where
  "failed_body =
     Obj [(js ''status'', Str (js ''error'')), (js ''message'', Str (js ''no text'')),
          (js ''data'', Obj [(js ''fields'', Obj [])])]"

definition unprintable_body :: jsval where
  "unprintable_body =
     Obj [(js ''status'', Str (js ''error'')),
          (js ''message'', Obj [(js ''toString'', Num 1)])]"

section \<open>The displayed text, as the specification words it\<close>

text \<open>
  The reading of \<open>cleanText\<close> on a string, operation by operation: a leading label
  (compared letter by letter without regard to case), with the white space, one
  \<open>:\<close> or \<open>-\<close> and the white space that follow it, is cut off; every run of white
  space becomes one space; a white space character standing before \<open>:\<close> or \<open>;\<close> is
  removed; the ends are trimmed.
\<close>

definition lower :: "cu \<Rightarrow> cu" where
  "lower c = (if 0x41 \<le> c \<and> c \<le> 0x5A then c + 0x20 else c)"

definition has_label :: "jsstring \<Rightarrow> jsstring \<Rightarrow> bool" where
  "has_label l t \<longleftrightarrow> length l \<le> length t \<and> map lower (take (length l) t) = map lower l"

definition drop_sep :: "jsstring \<Rightarrow> jsstring" where
  "drop_sep s = (case s of [] \<Rightarrow> [] | c # cs \<Rightarrow> if is_sep c then cs else s)"

definition strip_label :: "jsstring \<Rightarrow> jsstring" where
  "strip_label t =
     (case find (\<lambda>l. has_label l t) labels of
        None \<Rightarrow> t
      | Some l \<Rightarrow> dropWhile is_space (drop_sep (dropWhile is_space (drop (length l) t))))"

function collapse :: "jsstring \<Rightarrow> jsstring" where
  "collapse [] = []"
| "collapse (c # cs) =
     (if is_space c then 0x20 # collapse (dropWhile is_space cs) else c # collapse cs)"
  by pat_completeness auto
termination
  by (relation "measure length") (auto simp: length_dropWhile_le less_Suc_eq_le)

fun unspace :: "jsstring \<Rightarrow> jsstring" where
  "unspace [] = []"
| "unspace (c # cs) =
     (if is_space c \<and> (case cs of [] \<Rightarrow> False | d # ds \<Rightarrow> is_punct d) then unspace cs
      else c # unspace cs)"

definition displayed :: "jsstring \<Rightarrow> jsstring" where
  "displayed t = trim (unspace (collapse (strip_label t)))"

text \<open>Notions for the proofs about the matcher.\<close>

definition adv :: "nat \<Rightarrow> mstate \<Rightarrow> mstate" where
  "adv n st = st\<lparr>seen := seen st + n, rest := drop n (rest st)\<rparr>"

definition skip :: "(cu \<Rightarrow> bool) \<Rightarrow> mstate \<Rightarrow> mstate" where
  "skip P st = adv (length (takeWhile P (rest st))) st"

definition after_sep :: "mstate \<Rightarrow> mstate" where
  "after_sep st = (case rest st of [] \<Rightarrow> st | c # cs \<Rightarrow> if is_sep c then advance st else st)"

definition sep_tail :: rx where
  "sep_tail = Seq (Star (Cls is_space)) (Seq (Opt (Cls is_sep)) (Star (Cls is_space)))"

definition label_alt :: rx where
  "label_alt = Alt (chars (js ''BillingCycle''))
                   (Alt (chars (js ''Card Type''))
                   (Alt (chars (js ''Card Last 4 Digits''))
                   (Alt (chars (js ''Payment Due Date''))
                        (chars (js ''Total Balance Due'')))))"

section \<open>Rendering the result\<close>

text \<open>\<^verbatim>\<open>res.fields?.k?.value\<close>\<close>

definition field_value :: "jsval \<Rightarrow> jsstring \<Rightarrow> js_error + jsval" where
  "field_value r k =
     bind_err (get_prop r (js ''fields'')) (\<lambda>f. Inr (get_opt (get_opt f k) (js ''value'')))"

text \<open>
  One line of the card: the label and the cleaned value,
  \<^verbatim>\<open><span className="label">Card Type:</span>
  <span className="value">{cleanText(res.fields?.card_variant?.value)}</span>\<close>
\<close>

definition row :: "jsval \<Rightarrow> string \<Rightarrow> string \<Rightarrow> js_error + jsstring \<times> jsstring" where
  "row r label k =
     bind_err (field_value r (js k)) (\<lambda>v. bind_err (cleanText v) (\<lambda>t. Inr (js label, t)))"

text \<open>
  What \<^verbatim>\<open>{res && (<div className="result-card"> ... </div>)}\<close> shows: for a falsy
  \<open>res\<close> nothing (React prints the number 0, the only falsy number JSON has), and
  for a truthy one the card with its five lines, in the order of the source.
\<close>

datatype view = Hidden | Zero | Card "(jsstring \<times> jsstring) list"

definition render :: "jsval \<Rightarrow> js_error + view" where
  "render r =
     (if \<not> truthy r then Inr (case r of Num n \<Rightarrow> Zero | _ \<Rightarrow> Hidden)
      else
        bind_err (row r ''Card Type:'' ''card_variant'') (\<lambda>r1.
        bind_err (row r ''Card Last 4 Digits:'' ''card_last4'') (\<lambda>r2.
        bind_err (row r ''Billing Cycle:'' ''billing_cycle'') (\<lambda>r3.
        bind_err (row r ''Payment Due Date:'' ''payment_due_date'') (\<lambda>r4.
        bind_err (row r ''Total Balance Due:'' ''total_balance_due'') (\<lambda>r5.
        Inr (Card [r1, r2, r3, r4, r5])))))))"

definition ui_labels :: "jsstring list" where
  "ui_labels = [js ''Card Type:'', js ''Card Last 4 Digits:'', js ''Billing Cycle:'',
                js ''Payment Due Date:'', js ''Total Balance Due:'']"

fun collect :: "('e + 'a) list \<Rightarrow> 'e + 'a list" where
  "collect [] = Inr []"
| "collect (x # xs) = bind_err x (\<lambda>a. bind_err (collect xs) (\<lambda>as. Inr (a # as)))"

section \<open>The extraction engine\<close>

text \<open>
  The engine that produces the result (the back end of the repository, with its
  extractor module and bank table) is not among the sources; the front end above is
  its caller. The definitions of this section follow the specification. What the
  specification leaves open is a parameter: the patterns of the locator, the bank
  table, the date and currency formats, and the coefficients of the scorer.
\<close>

text \<open>Modelled from the spec: the value type tag of a FieldSpec (section 3); the engine is
  missing from the sources.\<close>

datatype value_type = EnumLabel | MaskedDigits | DateRange | Date | Currency

text \<open>Modelled from the spec: the three strategies of the Candidate Locator (section 4.2),
  which is missing from the sources.\<close>

datatype strategy = BankTemplate | LabelProximity | TypeFallback

text \<open>Modelled from the spec: a Candidate (section 3): its raw text, the strategy that
  produced it and its raw strength score; the locator that builds it is missing.\<close>

record candidate =
  raw :: jsstring
  found_by :: strategy
  strength :: rat

text \<open>Modelled from the spec: a FieldSpec (section 3), field key and value type tag; its
  label aliases feed the locator, which is a parameter here.\<close>

record field_spec =
  key :: jsstring
  vtype :: value_type

text \<open>Modelled from the spec: a FieldResult (sections 3 and 6), the record
  \<^verbatim>\<open>{value: string|null, confidence, snippet}\<close> of the missing engine.\<close>

record field_result =
  fvalue :: "jsstring option"
  confidence :: rat
  snippet :: jsstring

text \<open>Modelled from the spec: the fixed field keys (section 6) of the missing engine.\<close>

definition field_keys :: "jsstring list" where
  "field_keys = [js ''card_variant'', js ''card_last4'', js ''billing_cycle'',
                 js ''payment_due_date'', js ''total_balance_due'']"

text \<open>Modelled from the spec: the fixed table of the five FieldSpecs (sections 3 and 9)
  of the missing engine.\<close>

definition field_specs :: "field_spec list" where
  "field_specs =
     [\<lparr>key = js ''card_variant'', vtype = EnumLabel\<rparr>,
      \<lparr>key = js ''card_last4'', vtype = MaskedDigits\<rparr>,
      \<lparr>key = js ''billing_cycle'', vtype = DateRange\<rparr>,
      \<lparr>key = js ''payment_due_date'', vtype = Date\<rparr>,
      \<lparr>key = js ''total_balance_due'', vtype = Currency\<rparr>]"

text \<open>Modelled from the spec: the parts of the missing engine that the specification
  names but does not fix: the Bank Identifier over its table, the spans the locator
  finds with each strategy, the raw strength of a match, the normalizers other than
  masked-digits, the monotonic combination of the scorer with its floor, the bound of
  a snippet and the text of the error message.\<close>

record params =
  bank_of :: "jsstring \<Rightarrow> jsstring"
  locate :: "jsstring \<Rightarrow> jsstring \<Rightarrow> field_spec \<Rightarrow> (strategy \<times> jsstring) list"
  base_strength :: "strategy \<Rightarrow> jsstring \<Rightarrow> rat"
  normalize_other :: "value_type \<Rightarrow> jsstring \<Rightarrow> jsstring option"
  combine :: "rat \<Rightarrow> nat \<Rightarrow> rat"
  epsilon :: rat
  snippet_limit :: nat
  error_message :: jsstring

text \<open>Modelled from the spec: what the specification does fix about the coefficients of
  the missing locator and scorer. A bank-template match has a base strength in the
  range 0.8 to 1.0 and a type-pattern fallback one in 0.2 to 0.4 (section 4.2); the
  order is template over proximity over fallback (section 9); the confidence
  increases with the base strength and with corroboration, and its floor is a small
  positive epsilon (section 4.4).\<close>

definition params_ok :: "params \<Rightarrow> bool" where
  "params_ok p \<longleftrightarrow>
     (\<forall>x. 8 / 10 \<le> base_strength p BankTemplate x \<and> base_strength p BankTemplate x \<le> 1)
   \<and> (\<forall>x. 2 / 10 \<le> base_strength p TypeFallback x \<and> base_strength p TypeFallback x \<le> 4 / 10)
   \<and> (\<forall>x y z. base_strength p TypeFallback x < base_strength p LabelProximity y
              \<and> base_strength p LabelProximity y < base_strength p BankTemplate z)
   \<and> (\<forall>s s' k. s \<le> s' \<longrightarrow> combine p s k \<le> combine p s' k)
   \<and> (\<forall>s k. combine p s k \<le> combine p s (Suc k))
   \<and> 0 < epsilon p \<and> epsilon p \<le> 1"

text \<open>Modelled from the spec: the masked-digits rule of the missing Value Normalizer
  (section 4.3): "extract exactly 4 consecutive digits; reject if 0 or >4 are found
  at the candidate span". The digits found at a span are its maximal runs of digits;
  the span is accepted when they are one run of four.\<close>

definition is_digit :: "cu \<Rightarrow> bool" where
  "is_digit c \<longleftrightarrow> 0x30 \<le> c \<and> c \<le> 0x39"

text \<open>Modelled from the spec: the maximal runs of consecutive digits of a span, for the
  masked-digits rule of the missing normalizer.\<close>

function digit_runs :: "jsstring \<Rightarrow> jsstring list" where
  "digit_runs s =
     (case dropWhile (\<lambda>c. \<not> is_digit c) s of
        [] \<Rightarrow> []
      | c # cs \<Rightarrow> (c # takeWhile is_digit cs) # digit_runs (dropWhile is_digit cs))"
  by pat_completeness auto
termination
proof (relation "measure length")
  show "wf (measure length)"
    by simp
next
  fix s :: jsstring and c cs
  assume "dropWhile (\<lambda>c. \<not> is_digit c) s = c # cs"
  then have "Suc (length cs) \<le> length s"
    using length_dropWhile_le [of "\<lambda>c. \<not> is_digit c" s] by simp
  moreover have "length (dropWhile is_digit cs) \<le> length cs"
    by (rule length_dropWhile_le)
  ultimately show "(dropWhile is_digit cs, s) \<in> measure length"
    by simp
qed

declare digit_runs.simps [simp del]

text \<open>Modelled from the spec: the masked-digits normalizer (section 4.3) of the missing
  engine; \<open>None\<close> is the rejection signal.\<close>

definition normalize_masked :: "jsstring \<Rightarrow> jsstring option" where
  "normalize_masked s =
     (case digit_runs s of
        [d] \<Rightarrow> if length d = 4 then Some d else None
      | _ \<Rightarrow> None)"

text \<open>Modelled from the spec: the Value Normalizer (section 4.3) of the missing engine,
  by value type.\<close>

definition normalize :: "params \<Rightarrow> value_type \<Rightarrow> jsstring \<Rightarrow> jsstring option" where
  "normalize p ty s =
     (case ty of
        MaskedDigits \<Rightarrow> normalize_masked s
      | _ \<Rightarrow> normalize_other p ty s)"

text \<open>Modelled from the spec: the candidates of a field (section 4.2), each span the
  missing locator finds with its strategy and raw strength.\<close>

definition candidates :: "params \<Rightarrow> jsstring \<Rightarrow> jsstring \<Rightarrow> field_spec \<Rightarrow> candidate list" where
  "candidates p t b fs =
     map (\<lambda>(st, r). \<lparr>raw = r, found_by = st, strength = base_strength p st r\<rparr>) (locate p t b fs)"

text \<open>Modelled from the spec: the Field Resolver of the missing engine runs the
  normalizer over each candidate and discards the rejects (section 4.5).\<close>

definition survivors :: "params \<Rightarrow> field_spec \<Rightarrow> candidate list \<Rightarrow> (candidate \<times> jsstring) list" where
  "survivors p fs cs =
     List.map_filter (\<lambda>c. map_option (Pair c) (normalize p (vtype fs) (raw c))) cs"

text \<open>Modelled from the spec: corroboration (glossary, section 4.4) in the missing
  scorer: how many candidates of another strategy normalize to the same value.\<close>

definition corroborating :: "(candidate \<times> jsstring) list \<Rightarrow> candidate \<Rightarrow> jsstring \<Rightarrow> nat" where
  "corroborating svs c v = length (filter (\<lambda>(c', v'). v' = v \<and> found_by c' \<noteq> found_by c) svs)"

text \<open>Modelled from the spec: the Confidence Scorer (sections 4.4 and 9) of the missing
  engine, a function of the strategy strength and the corroboration count, capped at
  1 and floored at epsilon.\<close>

definition confidence_of :: "params \<Rightarrow> rat \<Rightarrow> nat \<Rightarrow> rat" where
  "confidence_of p s k = max (epsilon p) (min 1 (combine p s k))"

text \<open>Modelled from the spec: the scorer run over the surviving candidates (section 4.5)
  in the missing resolver.\<close>

definition scored ::
  "params \<Rightarrow> (candidate \<times> jsstring) list \<Rightarrow> (candidate \<times> jsstring \<times> rat) list" where
  "scored p svs =
     map (\<lambda>(c, v). (c, v, confidence_of p (strength c) (corroborating svs c v))) svs"

text \<open>Modelled from the spec: the choice of the missing resolver between two scored
  candidates (section 4.5): the higher confidence, then the bank-template one, then
  the shorter snippet.\<close>

definition better ::
  "candidate \<times> jsstring \<times> rat \<Rightarrow> candidate \<times> jsstring \<times> rat \<Rightarrow> candidate \<times> jsstring \<times> rat" where
  "better a b =
     (let (ca, va, xa) = a; (cb, vb, xb) = b in
      if xa < xb then b
      else if xb < xa then a
      else if found_by cb = BankTemplate \<and> found_by ca \<noteq> BankTemplate then b
      else if found_by ca = BankTemplate \<and> found_by cb \<noteq> BankTemplate then a
      else if length (raw cb) < length (raw ca) then b
      else a)"

text \<open>Modelled from the spec: the Field Resolver (section 4.5) of the missing engine:
  exactly one FieldResult, absent with confidence 0 when no candidate survives.\<close>

definition resolve :: "params \<Rightarrow> jsstring \<Rightarrow> jsstring \<Rightarrow> field_spec \<Rightarrow> field_result" where
  "resolve p t b fs =
     (case scored p (survivors p fs (candidates p t b fs)) of
        [] \<Rightarrow> \<lparr>fvalue = None, confidence = 0, snippet = []\<rparr>
      | x # xs \<Rightarrow>
          (let (c, v, conf) = foldl better x xs
           in \<lparr>fvalue = Some v, confidence = conf, snippet = take (snippet_limit p) (raw c)\<rparr>))"

text \<open>Modelled from the spec: the ExtractionResult (section 3) of the missing engine:
  the bank id and the mapping from field key to FieldResult.\<close>

record extraction_result =
  bank :: jsstring
  results :: "(jsstring \<times> field_result) list"

text \<open>Modelled from the spec: the overall status (section 6) of the missing engine:
  an error with its message, or a success with the result.\<close>

datatype extraction = Failure jsstring | Success extraction_result

text \<open>Modelled from the spec: the Statement Extractor (section 4.6) of the missing
  engine: blank text is a structural error; otherwise the bank is identified once
  and each of the five fields is resolved.\<close>

definition run_extractor :: "params \<Rightarrow> jsstring \<Rightarrow> extraction" where
  "run_extractor p t =
     (if list_all is_space t then Failure (error_message p)
      else Success \<lparr>bank = bank_of p t,
                    results = map (\<lambda>fs. (key fs, resolve p t (bank_of p t) fs)) field_specs\<rparr>)"

text \<open>Modelled from the spec: the output contract (section 6) of the missing engine as
  the JSON the front end reads: \<open>status\<close>, and \<open>data\<close> with the \<open>fields\<close> object
  on success or \<open>message\<close> on error.\<close>

definition field_json :: "field_result \<Rightarrow> jsval" where
  "field_json fr =
     Obj [(js ''value'', case fvalue fr of None \<Rightarrow> Null | Some v \<Rightarrow> Str v),
          (js ''confidence'', Num (confidence fr)),
          (js ''snippet'', Str (snippet fr))]"

text \<open>Modelled from the spec: the result object (section 6) of the missing engine.\<close>

definition result_json :: "extraction_result \<Rightarrow> jsval" where
  "result_json r =
     Obj [(js ''bank'', Str (bank r)),
          (js ''fields'', Obj (map (\<lambda>(k, fr). (k, field_json fr)) (results r)))]"

text \<open>Modelled from the spec: the response body (section 6) of the missing engine.\<close>

fun response_json :: "extraction \<Rightarrow> jsval" where
  "response_json (Success r) =
     Obj [(js ''status'', Str (js ''success'')), (js ''data'', result_json r)]"
| "response_json (Failure m) =
     Obj [(js ''status'', Str (js ''error'')), (js ''message'', Str m)]"

text \<open>What the card shows for a FieldResult.\<close>

definition shown :: "field_result \<Rightarrow> jsstring" where
  "shown fr = (case fvalue fr of None \<Rightarrow> [] | Some v \<Rightarrow> displayed v)"

text \<open>An instance of the parameters, and a run on it.\<close>

definition example_params :: params where
  "example_params =
     \<lparr>bank_of = (\<lambda>t. js ''unknown''),
      locate = (\<lambda>t b fs. if vtype fs = MaskedDigits
                          then [(BankTemplate, js ''Card ending 4532''), (TypeFallback, js ''ref 9911'')]
                          else if vtype fs = EnumLabel then [(LabelProximity, js '' Gold '')]
                          else [(TypeFallback, js ''N/A'')]),
      base_strength = (\<lambda>st r. case st of BankTemplate \<Rightarrow> 9 / 10 | LabelProximity \<Rightarrow> 6 / 10
                                | TypeFallback \<Rightarrow> 3 / 10),
      normalize_other = (\<lambda>ty s. if ty = EnumLabel then Some (trim s) else None),
      combine = (\<lambda>s k. s + of_nat k / 10),
      epsilon = 1 / 100,
      snippet_limit = 80,
      error_message = js ''empty text''\<rparr>"

definition last4_spec :: field_spec where
  "last4_spec = \<lparr>key = js ''card_last4'', vtype = MaskedDigits\<rparr>"

definition due_spec :: field_spec where
  "due_spec = \<lparr>key = js ''total_balance_due'', vtype = Currency\<rparr>"

definition last4_survivors :: "(candidate \<times> jsstring) list" where
  "last4_survivors =
     [(\<lparr>raw = js ''Card ending 4532'', found_by = BankTemplate, strength = 9 / 10\<rparr>, js ''4532''),
      (\<lparr>raw = js ''ref 9911'', found_by = TypeFallback, strength = 3 / 10\<rparr>, js ''9911'')]"

definition example_result :: extraction_result where
  "example_result =
     \<lparr>bank = js ''unknown'',
      results = map (\<lambda>fs. (key fs, resolve example_params (js ''x'') (js ''unknown'') fs)) field_specs\<rparr>"

section \<open>Absent values\<close>

text \<open>
  Claim C10. \<open>cleanText\<close> does not fail on an absent value: for \<open>null\<close>, for
  \<open>undefined\<close> and for the empty string it returns the empty string, not an error.
  So a line of the card whose field value is absent shows its label with an empty
  value.
\<close>

theorem cleanText_absent:
  "cleanText Null = Inr [] \<and> cleanText Undefined = Inr [] \<and> cleanText (Str []) = Inr []
   \<and> (field_value r (js k) = Inr v \<and> (v = Null \<or> v = Undefined \<or> v = Str [])
        \<longrightarrow> row r label k = Inr (js label, []))"
  by (auto simp: cleanText_def row_def bind_err_def)

theorem cleanText_absent_witness:
  "row (Obj [(js ''fields'', Obj [(js ''card_last4'', Obj [(js ''value'', Null)])])])
       ''Card Last 4 Digits:'' ''card_last4'' = Inr (js ''Card Last 4 Digits:'', [])
   \<and> row (Obj []) ''Card Type:'' ''card_variant'' = Inr (js ''Card Type:'', [])"
proof -
  have a: "field_value (Obj [(js ''fields'', Obj [(js ''card_last4'', Obj [(js ''value'', Null)])])])
             (js ''card_last4'') = Inr Null"
    by (simp add: field_value_def bind_err_def js_def)
  have b: "field_value (Obj []) (js ''card_variant'') = Inr Undefined"
    by (simp add: field_value_def bind_err_def)
  from a b
    cleanText_absent [of "Obj [(js ''fields'', Obj [(js ''card_last4'', Obj [(js ''value'', Null)])])]"
      "''card_last4''" Null "''Card Last 4 Digits:''"]
    cleanText_absent [of "Obj []" "''card_variant''" Undefined "''Card Type:''"]
  show ?thesis
    by simp
qed

section \<open>The upload handler: no file, and the loading flag\<close>

text \<open>
  Claim C8. When no file has been selected (\<open>file\<close> is \<open>null\<close>), \<open>upload\<close> shows
  an alert and returns at once: the alert is its only effect, so no HTTP request is
  issued, and the state, with the displayed result and the loading flag, is the one
  it started from.
\<close>

theorem upload_without_file:
  assumes "file' s = FNull"
  shows "upload_begin s = (s, [Alert (js ''Please choose a PDF file first!'')])
       \<and> upload h out s = (s, [Alert (js ''Please choose a PDF file first!'')])
       \<and> \<not> list_ex is_post (snd (upload h out s))
       \<and> res (fst (upload h out s)) = res s
       \<and> loading (fst (upload h out s)) = loading s"
proof -
  have b: "upload_begin s = (s, [Alert (js ''Please choose a PDF file first!'')])"
    using assms by (simp add: upload_begin_def)
  have u: "upload h out s = (s, [Alert (js ''Please choose a PDF file first!'')])"
    by (simp add: upload_def b)
  show ?thesis
    by (simp add: b u)
qed

theorem upload_without_file_witness:
  "file' (initial\<lparr>loading := True\<rparr>) = FNull
   \<and> upload (\<lambda>v. []) (Some (Rejected [])) (initial\<lparr>loading := True\<rparr>)
       = (initial\<lparr>loading := True\<rparr>, [Alert (js ''Please choose a PDF file first!'')])"
  using upload_without_file [of "initial\<lparr>loading := True\<rparr>" "\<lambda>v. []" "Some (Rejected [])"]
  by (simp add: initial_def)

text \<open>
  Claim C9. A run of \<open>upload\<close> with a file sends a request, and once the request has
  settled the loading flag is false, whatever the outcome: a success response, a
  response with another status, a body on which reading the status throws, or a
  rejected request. This holds for the state the continuation finds, whatever it is.
\<close>

theorem loading_cleared:
  assumes "has_file (file' s)"
  shows "list_ex is_post (snd (upload_begin s))
       \<and> loading (fst (upload_resume h out s')) = False
       \<and> loading (fst (upload h (Some out) s)) = False"
proof -
  have r: "loading (fst (upload_resume h out t)) = False" for t
    by (simp add: upload_resume_def Let_def split: outcome.splits sum.splits prod.splits)
  have b: "upload_begin s = (s\<lparr>loading := True\<rparr>, [Post (js ''http://127.0.0.1:8000/parse/'') (file' s)])"
    using assms by (simp add: upload_begin_def)
  have "loading (fst (upload h (Some out) s)) = loading (fst (upload_resume h out (s\<lparr>loading := True\<rparr>)))"
    by (simp add: upload_def b split: prod.splits)
  with r b show ?thesis
    by simp
qed

theorem loading_cleared_witness:
  "has_file (file' picked)
   \<and> loading (fst (upload (\<lambda>v. [])
        (Some (Fulfilled (Obj [(js ''status'', Str (js ''success'')), (js ''data'', Obj [])]))) picked)) = False
   \<and> loading (fst (upload (\<lambda>v. []) (Some (Fulfilled failed_body)) picked)) = False
   \<and> loading (fst (upload (\<lambda>v. []) (Some (Fulfilled Null)) picked)) = False
   \<and> loading (fst (upload (\<lambda>v. []) (Some (Rejected (js ''Network Error''))) picked)) = False"
proof -
  have h: "has_file (file' picked)"
    by (simp add: picked_def initial_def)
  show ?thesis
    using h loading_cleared [OF h] by simp
qed

text \<open>
  The condition that the request settles is needed: while it is pending, the flag
  set before the \<^verbatim>\<open>await\<close> stays.
\<close>

lemma loading_while_pending:
  "has_file (file' s) \<Longrightarrow> loading (fst (upload h None s)) = True"
  by (simp add: upload_def upload_begin_def)

section \<open>The upload handler: a response that is not a success\<close>

text \<open>
  Claim C3. When the status of the parse response is not \<open>success\<close>, the caller
  shows the message of the response in an alert (\<open>Parsing failed: \<close> and the message)
  and changes nothing but the loading flag: the displayed result stays as it was. The
  outcome is a function of the message alone, so the field data of such a response is
  not consumed; and the displayed result changes only for a response whose status is
  \<open>success\<close>. A message that is a string is shown as it is, and any other message
  as JavaScript prints it; a message that has no string form (an object with an own
  \<open>toString\<close> property) makes the concatenation throw, and the caller then logs
  the error and shows \<open>Error uploading file!\<close>, the result still unchanged. The
  message is written by the parse endpoint: on the error response of the
  specification, which carries a message and no field data, the alert shows that
  message.
\<close>

theorem non_success_response:
  assumes "get_prop d (js ''status'') = Inr st" and "st \<noteq> Str (js ''success'')"
  shows "upload_resume h (Fulfilled d) s =
           (s\<lparr>loading := False\<rparr>,
            case to_string h (get_opt d (js ''message'')) of
              Inr t \<Rightarrow> [Alert (js ''Parsing failed: '' @ t)]
            | Inl e \<Rightarrow> on_catch (JsError e))
       \<and> (get_opt d (js ''message'') = Str m \<longrightarrow>
            upload_resume h (Fulfilled d) s =
              (s\<lparr>loading := False\<rparr>, [Alert (js ''Parsing failed: '' @ m)]))
       \<and> res (fst (upload_resume h (Fulfilled d) s)) = res s
       \<and> (res (fst (upload_resume h out' s')) \<noteq> res s' \<longrightarrow>
            (\<exists>d'. out' = Fulfilled d' \<and> get_prop d' (js ''status'') = Inr (Str (js ''success''))))
       \<and> upload_resume h (Fulfilled (response_json (Failure m'))) s' =
           (s'\<lparr>loading := False\<rparr>, [Alert (js ''Parsing failed: '' @ m')])"
proof -
  have m: "get_prop d (js ''message'') = Inr (get_opt d (js ''message''))"
    using assms(1) by (cases d) simp_all
  have 1: "upload_resume h (Fulfilled d) s =
           (s\<lparr>loading := False\<rparr>,
            case to_string h (get_opt d (js ''message'')) of
              Inr t \<Rightarrow> [Alert (js ''Parsing failed: '' @ t)]
            | Inl e \<Rightarrow> on_catch (JsError e))"
    using assms by (simp add: upload_resume_def on_response_def m split: sum.splits)
  have 2: "get_opt d (js ''message'') = Str m \<longrightarrow>
            upload_resume h (Fulfilled d) s =
              (s\<lparr>loading := False\<rparr>, [Alert (js ''Parsing failed: '' @ m)])"
    by (simp add: 1)
  have 3: "res (fst (upload_resume h (Fulfilled d) s)) = res s"
    by (simp add: 1)
  have 4: "res (fst (upload_resume h out' s')) \<noteq> res s' \<longrightarrow>
            (\<exists>d'. out' = Fulfilled d' \<and> get_prop d' (js ''status'') = Inr (Str (js ''success'')))"
    by (auto simp: upload_resume_def on_response_def on_catch_def
             split: outcome.splits sum.splits if_splits)
  have 5: "upload_resume h (Fulfilled (response_json (Failure m'))) s' =
           (s'\<lparr>loading := False\<rparr>, [Alert (js ''Parsing failed: '' @ m')])"
    by (simp add: upload_resume_def on_response_def js_def)
  from 1 2 3 4 5 show ?thesis
    by blast
qed

theorem non_success_response_witness:
  "get_prop failed_body (js ''status'') = Inr (Str (js ''error''))
   \<and> Str (js ''error'') \<noteq> Str (js ''success'')
   \<and> upload_resume (\<lambda>n. []) (Fulfilled failed_body) (picked\<lparr>loading := True\<rparr>) =
        (picked\<lparr>loading := False\<rparr>, [Alert (js ''Parsing failed: no text'')])
   \<and> upload_resume (\<lambda>n. []) (Fulfilled unprintable_body) (picked\<lparr>loading := True\<rparr>) =
        (picked\<lparr>loading := False\<rparr>,
         [ConsoleError (JsError TypeError), Alert (js ''Error uploading file!'')])"
proof -
  have a: "get_prop failed_body (js ''status'') = Inr (Str (js ''error''))"
    by (simp add: failed_body_def js_def)
  have b: "Str (js ''error'') \<noteq> Str (js ''success'')"
    by (simp add: js_def)
  have c: "get_opt failed_body (js ''message'') = Str (js ''no text'')"
    by (simp add: failed_body_def js_def)
  have a': "get_prop unprintable_body (js ''status'') = Inr (Str (js ''error''))"
    by (simp add: unprintable_body_def js_def)
  have c': "to_string (\<lambda>n. []) (get_opt unprintable_body (js ''message'')) = Inl TypeError"
    by (simp add: unprintable_body_def js_def)
  have 1: "upload_resume (\<lambda>n. []) (Fulfilled failed_body) (picked\<lparr>loading := True\<rparr>) =
        (picked\<lparr>loading := False\<rparr>, [Alert (js ''Parsing failed: no text'')])"
    using non_success_response [OF a b, of "\<lambda>n. []" "picked\<lparr>loading := True\<rparr>"]
    unfolding c by (simp add: js_def)
  have 2: "upload_resume (\<lambda>n. []) (Fulfilled unprintable_body) (picked\<lparr>loading := True\<rparr>) =
        (picked\<lparr>loading := False\<rparr>,
         [ConsoleError (JsError TypeError), Alert (js ''Error uploading file!'')])"
    using non_success_response [OF a' b, of "\<lambda>n. []" "picked\<lparr>loading := True\<rparr>"]
    unfolding c' by (simp add: on_catch_def)
  from a b 1 2 show ?thesis
    by simp
qed

section \<open>The matcher on the patterns of cleanText\<close>

lemma fold_lower: "0x61 \<le> (a::cu) \<Longrightarrow> a \<le> 0x7A \<Longrightarrow>
    0x41 \<le> a - 0x20 \<and> a - 0x20 \<le> 0x5A \<and> \<not> (0x61 \<le> a - 0x20 \<and> a - 0x20 \<le> 0x7A)
    \<and> \<not> (0x41 \<le> a \<and> a \<le> 0x5A)"
  by unat_arith

lemma fold_upper: "0x41 \<le> (a::cu) \<Longrightarrow> a \<le> 0x5A \<Longrightarrow>
    0x61 \<le> a + 0x20 \<and> a + 0x20 \<le> 0x7A \<and> \<not> (0x41 \<le> a + 0x20 \<and> a + 0x20 \<le> 0x5A)
    \<and> \<not> (0x61 \<le> a \<and> a \<le> 0x7A)"
  by unat_arith auto

lemma lower_canonicalize: "lower (canonicalize a) = lower a"
  using fold_lower [of a] by (simp add: canonicalize_def lower_def)

lemma canonicalize_lower: "canonicalize (lower a) = canonicalize a"
  using fold_upper [of a] by (simp add: canonicalize_def lower_def)

lemma canon_lower: "canonicalize a = canonicalize b \<longleftrightarrow> lower a = lower b"
  by (metis lower_canonicalize canonicalize_lower)

lemma adv_0: "adv 0 st = st"
  by (simp add: adv_def)

lemma adv_advance: "rest st = d # ds \<Longrightarrow> adv n (advance st) = adv (Suc n) st"
  by (simp add: adv_def advance_def)

lemma has_label_Nil: "has_label [] t"
  by (simp add: has_label_def)

lemma has_label_Cons:
  "has_label (c # cs) t \<longleftrightarrow> (case t of [] \<Rightarrow> False | d # ds \<Rightarrow> lower d = lower c \<and> has_label cs ds)"
  by (cases t) (auto simp: has_label_def)

lemma matches_chars:
  "matches True (chars l) st = (if has_label l (rest st) then [adv (length l) st] else [])"
proof (induction l arbitrary: st)
  case Nil
  show ?case
    by (simp add: has_label_Nil adv_0)
next
  case (Cons c cs)
  show ?case
  proof (cases "rest st")
    case Nil
    then show ?thesis
      by (simp add: has_label_Cons)
  next
    case (Cons d ds)
    then have "rest (advance st) = ds"
      by (simp add: advance_def)
    with Cons Cons.IH [of "advance st"] show ?thesis
      by (simp add: has_label_Cons canon_lower adv_advance)
  qed
qed

lemma skip_step: "rest st = c # cs \<Longrightarrow> P c \<Longrightarrow> skip P (advance st) = skip P st"
  by (simp add: skip_def adv_def advance_def)

lemma skip_stop: "(case rest st of [] \<Rightarrow> True | c # cs \<Rightarrow> \<not> P c) \<Longrightarrow> skip P st = st"
  by (cases "rest st") (simp_all add: skip_def adv_def)

lemma star_cls_step:
  "rest st = c # cs \<Longrightarrow> P c \<Longrightarrow>
     matches ic (Star (Cls P)) st = matches ic (Star (Cls P)) (advance st) @ [st]"
  by (simp add: advance_def)

lemma star_cls_stop:
  "(case rest st of [] \<Rightarrow> True | c # cs \<Rightarrow> \<not> P c) \<Longrightarrow> matches ic (Star (Cls P)) st = [st]"
  by (cases "rest st") simp_all

lemma star_cls: "\<exists>ms. matches ic (Star (Cls P)) st = skip P st # ms"
proof (induction "rest st" arbitrary: st)
  case Nil
  then have "rest st = []" by simp
  then show ?case
    by (simp add: skip_stop star_cls_stop)
next
  case (Cons c cs)
  then have r: "rest st = c # cs" by simp
  show ?case
  proof (cases "P c")
    case True
    have "cs = rest (advance st)"
      using r by (simp add: advance_def)
    from Cons.hyps(1) [OF this] obtain ms where
      "matches ic (Star (Cls P)) (advance st) = skip P (advance st) # ms" ..
    then have "matches ic (Star (Cls P)) st = skip P st # (ms @ [st])"
      unfolding star_cls_step [where P = P, OF r True] skip_step [where P = P, OF r True]
      by (simp only: append_Cons)
    then show ?thesis ..
  next
    case False
    with r show ?thesis
      by (simp add: skip_stop star_cls_stop)
  qed
qed

lemma opt_cls:
  "\<exists>ms. matches ic (Opt (Cls P)) st =
     (case rest st of [] \<Rightarrow> st | c # cs \<Rightarrow> if P c then advance st else st) # ms"
  by (cases "rest st") simp_all

lemma seq_first:
  assumes "matches ic r1 st = m # ms" and "matches ic r2 m = m' # ms'"
  shows "\<exists>zs. matches ic (Seq r1 r2) st = m' # zs"
  using assms by simp

lemma seq_none: "matches ic r1 st = [] \<Longrightarrow> matches ic (Seq r1 r2) st = []"
  by simp

lemma sep_tail_first:
  "\<exists>zs. matches ic sep_tail st = skip is_space (after_sep (skip is_space st)) # zs"
proof -
  obtain a where a: "matches ic (Star (Cls is_space)) st = skip is_space st # a"
    using star_cls by blast
  obtain b where b: "matches ic (Opt (Cls is_sep)) (skip is_space st) = after_sep (skip is_space st) # b"
    unfolding after_sep_def using opt_cls by blast
  obtain c where c: "matches ic (Star (Cls is_space)) (after_sep (skip is_space st))
       = skip is_space (after_sep (skip is_space st)) # c"
    using star_cls by blast
  from seq_first [OF b c] obtain d where
    "matches ic (Seq (Opt (Cls is_sep)) (Star (Cls is_space))) (skip is_space st)
       = skip is_space (after_sep (skip is_space st)) # d" ..
  from seq_first [OF a this] show ?thesis
    unfolding sep_tail_def .
qed

lemma rest_skip: "rest (skip P st) = dropWhile P (rest st)"
  by (simp add: skip_def adv_def dropWhile_eq_drop)

lemma rest_after_sep: "rest (after_sep st) = drop_sep (rest st)"
  by (cases "rest st") (simp_all add: after_sep_def drop_sep_def advance_def)

lemma matches_label_alt:
  "matches True label_alt st =
     map (\<lambda>l. adv (length l) st) (filter (\<lambda>l. has_label l (rest st)) labels)"
  by (simp add: label_alt_def labels_def matches_chars)

lemma rest_adv: "rest (adv n st) = drop n (rest st)"
  by (simp add: adv_def)

lemma label_pattern:
  "pattern label_re = Seq Bol (Seq (Grp label_alt) sep_tail)"
  by (simp add: label_re_def label_alt_def sep_tail_def)

lemma find_Some_filter: "find P xs = Some x \<Longrightarrow> \<exists>ys. filter P xs = x # ys"
  by (induction xs) (auto split: if_splits)

lemma label_match_none:
  assumes "find (\<lambda>l. has_label l s) labels = None"
  shows "matches True (pattern label_re) (start_at i s) = []"
proof -
  have "filter (\<lambda>l. has_label l s) labels = []"
    using assms by (simp add: find_None_iff filter_empty_conv)
  then show ?thesis
    by (simp add: label_pattern matches_label_alt start_at_def)
qed

lemma label_match_some:
  assumes "find (\<lambda>l. has_label l s) labels = Some l"
  shows "\<exists>m zs. matches True (pattern label_re) (start_at 0 s) = m # zs
           \<and> rest m = dropWhile is_space (drop_sep (dropWhile is_space (drop (length l) s)))"
proof -
  obtain ls where "filter (\<lambda>l. has_label l s) labels = l # ls"
    using find_Some_filter [OF assms] by blast
  then obtain g gs where g: "matches True (Grp label_alt) (start_at 0 s) = g # gs"
    and rg: "rest g = drop (length l) s"
    by (simp add: matches_label_alt start_at_def rest_adv)
  obtain zs where t: "matches True sep_tail g = skip is_space (after_sep (skip is_space g)) # zs"
    using sep_tail_first by blast
  have b: "matches True Bol (start_at 0 s) = [start_at 0 s]"
    by (simp add: start_at_def)
  from seq_first [OF g t] obtain ys where
    "matches True (Seq (Grp label_alt) sep_tail) (start_at 0 s)
       = skip is_space (after_sep (skip is_space g)) # ys" ..
  from seq_first [OF b this] obtain xs where
    "matches True (pattern label_re) (start_at 0 s) = skip is_space (after_sep (skip is_space g)) # xs"
    unfolding label_pattern ..
  then show ?thesis
    by (simp add: rest_skip rest_after_sep rg)
qed

lemma exec_bol_later: "0 < i \<Longrightarrow> exec ic (Seq Bol r) i s = None"
  by (induction s arbitrary: i) (simp_all add: start_at_def)

lemma replace_label: "replace label_re [] s = strip_label s"
proof (cases "find (\<lambda>l. has_label l s) labels")
  case None
  have "exec True (pattern label_re) 0 s = None"
  proof (cases s)
    case Nil
    then show ?thesis
      using label_match_none [OF None, of 0] by simp
  next
    case (Cons c cs)
    have "exec True (pattern label_re) (Suc 0) cs = None"
      unfolding label_pattern by (rule exec_bol_later) simp
    then show ?thesis
      using label_match_none [OF None, of 0] Cons by simp
  qed
  then show ?thesis
    using None by (simp add: replace_def replace_first_def strip_label_def label_re_def)
next
  case (Some l)
  from label_match_some [OF Some] obtain m zs where
    m: "matches True (pattern label_re) (start_at 0 s) = m # zs"
    and r: "rest m = dropWhile is_space (drop_sep (dropWhile is_space (drop (length l) s)))"
    by blast
  have "exec True (pattern label_re) 0 s = Some ([], m)"
    using m by (cases s) simp_all
  then show ?thesis
    using Some r by (simp add: replace_def replace_first_def strip_label_def label_re_def)
qed

lemma replace_all_miss_Nil:
  "matches ic r (start_at i []) = [] \<Longrightarrow> replace_all ic r tpl i [] = []"
  by (subst replace_all.simps) simp

lemma replace_all_miss_Cons:
  "matches ic r (start_at i (c # cs)) = [] \<Longrightarrow>
     replace_all ic r tpl i (c # cs) = c # replace_all ic r tpl (Suc i) cs"
  by (subst replace_all.simps) simp

lemma replace_all_hit:
  "matches ic r (start_at i s) = m # ms \<Longrightarrow> length (rest m) < length s \<Longrightarrow>
     replace_all ic r tpl i s = expand tpl (caps m) @ replace_all ic r tpl (seen m) (rest m)"
  by (subst replace_all.simps) simp

lemma caps_skip: "caps (skip P st) = caps st"
  by (simp add: skip_def adv_def)

lemma spaces_match_Nil: "matches ic (pattern spaces_re) (start_at i []) = []"
  by (simp add: spaces_re_def start_at_def)

lemma spaces_match_miss:
  "\<not> is_space c \<Longrightarrow> matches ic (pattern spaces_re) (start_at i (c # cs)) = []"
  by (simp add: spaces_re_def start_at_def)

lemma spaces_match_hit:
  assumes "is_space c"
  shows "\<exists>m ms. matches ic (pattern spaces_re) (start_at i (c # cs)) = m # ms
           \<and> rest m = dropWhile is_space cs \<and> caps m = []"
proof -
  have a: "matches ic (Cls is_space) (start_at i (c # cs)) = [advance (start_at i (c # cs))]"
    using assms by (simp add: start_at_def)
  obtain ms where b: "matches ic (Star (Cls is_space)) (advance (start_at i (c # cs)))
       = skip is_space (advance (start_at i (c # cs))) # ms"
    using star_cls by blast
  from seq_first [OF a b] obtain zs where
    "matches ic (pattern spaces_re) (start_at i (c # cs))
       = skip is_space (advance (start_at i (c # cs))) # zs"
    by (auto simp: spaces_re_def)
  then show ?thesis
    by (simp add: rest_skip caps_skip advance_def start_at_def)
qed

lemma replace_spaces: "replace_all False (pattern spaces_re) [Text [0x20]] i s = collapse s"
proof (induction s arbitrary: i rule: collapse.induct)
  case 1
  show ?case
    by (simp add: replace_all_miss_Nil spaces_match_Nil)
next
  case (2 c cs)
  show ?case
  proof (cases "is_space c")
    case True
    from spaces_match_hit [OF True] obtain m ms where
      m: "matches False (pattern spaces_re) (start_at i (c # cs)) = m # ms"
      and r: "rest m = dropWhile is_space cs" and c: "caps m = []"
      by blast
    have "length (rest m) < length (c # cs)"
      by (simp add: r length_dropWhile_le less_Suc_eq_le)
    from replace_all_hit [OF m this] show ?thesis
      using True "2.IH"(1) [OF True] by (simp add: r c)
  next
    case False
    from replace_all_miss_Cons [OF spaces_match_miss [OF False]] show ?thesis
      using False "2.IH"(2) [OF False] by simp
  qed
qed

lemma punct_match:
  "matches ic (pattern punct_re) (start_at i s) =
     (case s of
        c # d # ds \<Rightarrow>
          if is_space c \<and> is_punct d then [\<lparr>seen = Suc (Suc i), rest = ds, caps = [[d]]\<rparr>] else []
      | _ \<Rightarrow> [])"
  by (simp add: punct_re_def start_at_def advance_def split: list.splits)

lemma punct_not_space: "is_punct d \<Longrightarrow> \<not> is_space d"
  by (auto simp: is_punct_def is_space_def)

lemma replace_punct: "replace_all False (pattern punct_re) [Ref 1] i s = unspace s"
proof (induction s arbitrary: i rule: length_induct)
  case (1 s)
  show ?case
  proof (cases s)
    case Nil
    then show ?thesis
      by (simp add: replace_all_miss_Nil punct_match)
  next
    case c: (Cons c cs)
    show ?thesis
    proof (cases "is_space c \<and> (case cs of [] \<Rightarrow> False | d # ds \<Rightarrow> is_punct d)")
      case True
      then obtain d ds where cs: "cs = d # ds" and d: "is_punct d" and sp: "is_space c"
        by (cases cs) auto
      have m: "matches False (pattern punct_re) (start_at i s)
                 = [\<lparr>seen = Suc (Suc i), rest = ds, caps = [[d]]\<rparr>]"
        by (simp add: punct_match c cs d sp)
      have "replace_all False (pattern punct_re) [Ref 1] i s
              = d # replace_all False (pattern punct_re) [Ref 1] (Suc (Suc i)) ds"
        using replace_all_hit [OF m] by (simp add: c cs)
      also have "\<dots> = d # unspace ds"
        using "1.IH" by (simp add: c cs)
      also have "\<dots> = unspace s"
        using d sp punct_not_space [OF d] by (simp add: c cs)
      finally show ?thesis .
    next
      case False
      then have m: "matches False (pattern punct_re) (start_at i (c # cs)) = []"
        by (auto simp: punct_match split: list.splits)
      from replace_all_miss_Cons [OF m] show ?thesis
        using False "1.IH" by (simp add: c)
    qed
  qed
qed

lemma clean_string_displayed: "clean_string s = displayed s"
  by (simp add: clean_string_def displayed_def replace_label)
     (simp add: replace_def spaces_re_def punct_re_def js_def
           replace_spaces [unfolded spaces_re_def, simplified]
           replace_punct [unfolded punct_re_def, simplified])

lemma displayed_Nil: "displayed [] = []"
  by (simp add: displayed_def strip_label_def labels_def has_label_def js_def trim_def)

lemma cleanText_Str: "cleanText (Str t) = Inr (displayed t)"
  by (simp add: cleanText_def clean_string_displayed displayed_Nil)

section \<open>The displayed text\<close>

text \<open>
  Claim C2. For every string \<open>t\<close>, \<open>cleanText\<close> returns \<open>t\<close> with one leading label
  cut off (one of BillingCycle, Card Type, Card Last 4 Digits, Payment Due Date, Total
  Balance Due, in any case, together with the white space, the optional \<open>:\<close> or
  \<open>-\<close> and the white space after it), every run of white space collapsed to one
  space, the space before a \<open>:\<close> or \<open>;\<close> removed, and the ends trimmed. The left
  side runs the three regular expressions of the source on the backtracking matcher;
  the right side is the reading above.
\<close>

theorem cleanText_displayed: "cleanText (Str t) = Inr (displayed t)"
  by (rule cleanText_Str)

theorem cleanText_displayed_example:
  "cleanText (Str (js ''card type :  Gold  Card ; x '')) = Inr (js ''Gold Card; x'')"
  unfolding cleanText_displayed
  by (simp add: displayed_def strip_label_def labels_def has_label_def js_def trim_def
        lower_def drop_sep_def is_sep_def is_space_def is_punct_def)

section \<open>The scorer and the resolver\<close>

lemma confidence_of_bounds:
  assumes "params_ok p"
  shows "epsilon p \<le> confidence_of p s k" and "confidence_of p s k \<le> 1" and "0 < confidence_of p s k"
proof -
  from assms have e: "0 < epsilon p" "epsilon p \<le> 1"
    by (simp_all add: params_ok_def)
  show "epsilon p \<le> confidence_of p s k"
    by (simp add: confidence_of_def)
  show "confidence_of p s k \<le> 1"
    using e by (simp add: confidence_of_def)
  show "0 < confidence_of p s k"
    using e by (simp add: confidence_of_def max_def)
qed

lemma base_strength_bounds:
  assumes "params_ok p"
  shows "0 \<le> base_strength p st r \<and> base_strength p st r \<le> 1"
proof (cases st)
  case BankTemplate
  with assms show ?thesis
    unfolding params_ok_def
    by (metis (mono_tags, opaque_lifting) divide_nonneg_nonneg order_trans zero_le_numeral)
next
  case LabelProximity
  from assms have
    "base_strength p TypeFallback r < base_strength p LabelProximity r"
    "base_strength p LabelProximity r < base_strength p BankTemplate r"
    "2 / 10 \<le> base_strength p TypeFallback r" "base_strength p BankTemplate r \<le> 1"
    by (simp_all add: params_ok_def)
  with LabelProximity show ?thesis
    by simp
next
  case TypeFallback
  from assms have "2 / 10 \<le> base_strength p TypeFallback r" "base_strength p TypeFallback r \<le> 4 / 10"
    by (simp_all add: params_ok_def)
  with TypeFallback show ?thesis
    by simp
qed

lemma better_cases: "better a b = a \<or> better a b = b"
  by (simp add: better_def Let_def split: prod.splits)

lemma foldl_better_mem: "foldl better x xs \<in> set (x # xs)"
proof (induction xs arbitrary: x)
  case Nil
  show ?case by simp
next
  case (Cons y ys)
  from Cons.IH [of "better x y"] better_cases [of x y] show ?case
    by auto
qed

lemma scored_bounds:
  assumes "params_ok p" and "(c, v, x) \<in> set (scored p svs)"
  shows "epsilon p \<le> x \<and> x \<le> 1 \<and> 0 < x"
  using assms(2) confidence_of_bounds [OF assms(1)]
  by (auto simp: scored_def)

lemma scored_Nil: "scored p svs = [] \<longleftrightarrow> svs = []"
  by (simp add: scored_def)

lemma resolve_none:
  "survivors p fs (candidates p t b fs) = [] \<Longrightarrow>
     resolve p t b fs = \<lparr>fvalue = None, confidence = 0, snippet = []\<rparr>"
  by (simp add: resolve_def scored_def)

lemma resolve_some:
  assumes "survivors p fs (candidates p t b fs) \<noteq> []"
  shows "\<exists>c v x. (c, v, x) \<in> set (scored p (survivors p fs (candidates p t b fs)))
           \<and> resolve p t b fs = \<lparr>fvalue = Some v, confidence = x, snippet = take (snippet_limit p) (raw c)\<rparr>"
proof -
  from assms obtain y ys where ys: "scored p (survivors p fs (candidates p t b fs)) = y # ys"
    by (cases "scored p (survivors p fs (candidates p t b fs))") (simp_all add: scored_Nil)
  obtain c v x where f: "foldl better y ys = (c, v, x)"
    by (cases "foldl better y ys") auto
  have "(c, v, x) \<in> set (y # ys)"
    using foldl_better_mem [of y ys] f by simp
  then show ?thesis
    using ys f by (auto simp: resolve_def)
qed

lemma resolve_confidence:
  assumes "params_ok p"
  shows "0 \<le> confidence (resolve p t b fs) \<and> confidence (resolve p t b fs) \<le> 1"
proof (cases "survivors p fs (candidates p t b fs) = []")
  case True
  then show ?thesis
    by (simp add: resolve_none)
next
  case False
  from resolve_some [OF False] obtain c v x where
    m: "(c, v, x) \<in> set (scored p (survivors p fs (candidates p t b fs)))"
    and r: "confidence (resolve p t b fs) = x"
    by auto
  from scored_bounds [OF assms m] r show ?thesis
    by simp
qed

lemma example_params_ok: "params_ok example_params"
  by (simp add: params_ok_def example_params_def split: strategy.splits)

lemma digit_runs_4532: "digit_runs (js ''Card ending 4532'') = [js ''4532'']"
  by (simp add: digit_runs.simps js_def is_digit_def)

lemma digit_runs_9911: "digit_runs (js ''ref 9911'') = [js ''9911'']"
  by (simp add: digit_runs.simps js_def is_digit_def)

lemma last4_survivors_eq:
  "survivors example_params last4_spec (candidates example_params t b last4_spec) = last4_survivors"
  by (simp add: survivors_def candidates_def last4_spec_def example_params_def List.map_filter_def
        normalize_def normalize_masked_def digit_runs_4532 digit_runs_9911 last4_survivors_def)
     (simp add: js_def)

lemma due_survivors_eq:
  "survivors example_params due_spec (candidates example_params t b due_spec) = []"
  by (simp add: survivors_def candidates_def due_spec_def example_params_def List.map_filter_def
        normalize_def)

lemma last4_scored:
  "scored example_params last4_survivors =
     [(\<lparr>raw = js ''Card ending 4532'', found_by = BankTemplate, strength = 9 / 10\<rparr>, js ''4532'', 9 / 10),
      (\<lparr>raw = js ''ref 9911'', found_by = TypeFallback, strength = 3 / 10\<rparr>, js ''9911'', 3 / 10)]"
  by (simp add: scored_def last4_survivors_def confidence_of_def corroborating_def example_params_def js_def)

text \<open>
  Claim C4. On every run, the strength score of every candidate and the confidence of
  every field result lie between 0 and 1; every candidate that the normalizer does
  not reject is scored at least the positive epsilon; and the confidence of a field is
  exactly 0 if and only if the field has no candidate (none was located, or none
  survived normalization), which is when its value is absent. The coefficients are any
  that the specification allows (\<open>params_ok\<close>).
\<close>

theorem confidence_range:
  assumes "params_ok p"
  shows "(\<forall>c \<in> set (candidates p t b fs). 0 \<le> strength c \<and> strength c \<le> 1)
       \<and> (\<forall>(c, v, x) \<in> set (scored p (survivors p fs (candidates p t b fs))). epsilon p \<le> x \<and> x \<le> 1)
       \<and> 0 \<le> confidence (resolve p t b fs) \<and> confidence (resolve p t b fs) \<le> 1
       \<and> (confidence (resolve p t b fs) = 0 \<longleftrightarrow> survivors p fs (candidates p t b fs) = [])
       \<and> (confidence (resolve p t b fs) = 0 \<longleftrightarrow> fvalue (resolve p t b fs) = None)
       \<and> 0 < epsilon p"
proof -
  have 1: "\<forall>c \<in> set (candidates p t b fs). 0 \<le> strength c \<and> strength c \<le> 1"
    using base_strength_bounds [OF assms] by (auto simp: candidates_def)
  have 2: "\<forall>(c, v, x) \<in> set (scored p (survivors p fs (candidates p t b fs))). epsilon p \<le> x \<and> x \<le> 1"
    using scored_bounds [OF assms] by blast
  have 3: "(confidence (resolve p t b fs) = 0 \<longleftrightarrow> survivors p fs (candidates p t b fs) = [])
       \<and> (confidence (resolve p t b fs) = 0 \<longleftrightarrow> fvalue (resolve p t b fs) = None)"
  proof (cases "survivors p fs (candidates p t b fs) = []")
    case True
    then show ?thesis
      by (simp add: resolve_none)
  next
    case False
    from resolve_some [OF False] obtain c v x where
      m: "(c, v, x) \<in> set (scored p (survivors p fs (candidates p t b fs)))"
      and r: "resolve p t b fs = \<lparr>fvalue = Some v, confidence = x, snippet = take (snippet_limit p) (raw c)\<rparr>"
      by auto
    from scored_bounds [OF assms m] False show ?thesis
      by (simp add: r)
  qed
  have 4: "0 < epsilon p"
    using assms by (simp add: params_ok_def)
  from 1 2 3 4 resolve_confidence [OF assms, of t b fs] show ?thesis
    by blast
qed

theorem confidence_range_witness:
  "params_ok example_params
   \<and> confidence (resolve example_params [] [] last4_spec) = 9 / 10
   \<and> survivors example_params last4_spec (candidates example_params [] [] last4_spec) \<noteq> []
   \<and> confidence (resolve example_params [] [] due_spec) = 0
   \<and> 0 < epsilon example_params"
proof -
  have a: "confidence (resolve example_params [] [] last4_spec) = 9 / 10"
    by (simp add: resolve_def last4_survivors_eq last4_scored better_def)
  have b: "survivors example_params last4_spec (candidates example_params [] [] last4_spec) \<noteq> []"
    by (simp add: last4_survivors_eq last4_survivors_def)
  from confidence_range [OF example_params_ok, of "[]" "[]" due_spec]
  have c: "confidence (resolve example_params [] [] due_spec) = 0" "0 < epsilon example_params"
    by (simp_all add: due_survivors_eq)
  from example_params_ok a b c show ?thesis
    by simp
qed

text \<open>
  Claim C7. Of two candidates of a field, neither corroborated, the one found by the
  bank-template strategy is scored at least as high as the one found by the
  type-pattern fallback. The scorer is a function of the strategy strength and the
  corroboration count alone, so the normalized values do not enter.
\<close>

theorem template_beats_fallback:
  assumes "params_ok p"
    and "svs = survivors p fs (candidates p t b fs)"
    and "(c, v, x) \<in> set (scored p svs)" and "found_by c = BankTemplate"
    and "(c', v', x') \<in> set (scored p svs)" and "found_by c' = TypeFallback"
    and "corroborating svs c v = 0" and "corroborating svs c' v' = 0"
  shows "x' \<le> x"
proof -
  have mem: "(a, w) \<in> set svs \<Longrightarrow> strength a = base_strength p (found_by a) (raw a)" for a w
    unfolding assms(2) survivors_def candidates_def
    by (auto simp: List.map_filter_def)
  from assms(3) have x: "x = confidence_of p (strength c) (corroborating svs c v)" and c: "(c, v) \<in> set svs"
    by (auto simp: scored_def)
  from assms(5) have x': "x' = confidence_of p (strength c') (corroborating svs c' v')" and c': "(c', v') \<in> set svs"
    by (auto simp: scored_def)
  have "strength c' \<le> 4 / 10"
    using assms(1) mem [OF c'] assms(6) by (simp add: params_ok_def)
  moreover have "8 / 10 \<le> strength c"
    using assms(1) mem [OF c] assms(4) by (simp add: params_ok_def)
  ultimately have "strength c' \<le> strength c"
    by simp
  with assms(1) have "combine p (strength c') 0 \<le> combine p (strength c) 0"
    by (simp add: params_ok_def)
  then show ?thesis
    unfolding x x' assms(7,8) confidence_of_def
    by (simp add: max_def min_def)
qed

theorem template_beats_fallback_witness:
  "params_ok example_params
   \<and> corroborating last4_survivors \<lparr>raw = js ''Card ending 4532'', found_by = BankTemplate, strength = 9 / 10\<rparr> (js ''4532'') = 0
   \<and> corroborating last4_survivors \<lparr>raw = js ''ref 9911'', found_by = TypeFallback, strength = 3 / 10\<rparr> (js ''9911'') = 0
   \<and> (3 / 10 :: rat) \<le> 9 / 10"
proof -
  let ?c = "\<lparr>raw = js ''Card ending 4532'', found_by = BankTemplate, strength = 9 / 10\<rparr>"
  let ?c' = "\<lparr>raw = js ''ref 9911'', found_by = TypeFallback, strength = 3 / 10\<rparr>"
  have s: "last4_survivors = survivors example_params last4_spec (candidates example_params [] [] last4_spec)"
    by (simp add: last4_survivors_eq)
  have m: "(?c, js ''4532'', 9 / 10) \<in> set (scored example_params last4_survivors)"
    and m': "(?c', js ''9911'', 3 / 10) \<in> set (scored example_params last4_survivors)"
    by (simp_all add: last4_scored)
  have k: "corroborating last4_survivors ?c (js ''4532'') = 0"
    and k': "corroborating last4_survivors ?c' (js ''9911'') = 0"
    by (simp_all add: corroborating_def last4_survivors_def js_def)
  have "(3 / 10 :: rat) \<le> 9 / 10"
    by (rule template_beats_fallback [OF example_params_ok s m _ m' _ k k']) simp_all
  with example_params_ok k k' show ?thesis
    by simp
qed

section \<open>Masked digits\<close>

lemma digit_runs_no_digit: "\<not> list_ex is_digit s \<Longrightarrow> digit_runs s = []"
proof -
  assume "\<not> list_ex is_digit s"
  then have h: "dropWhile (\<lambda>c. \<not> is_digit c) s = []"
    by (simp add: list_ex_iff)
  show ?thesis
    by (subst digit_runs.simps, subst h) simp
qed

lemma filter_split_run: "filter P cs = takeWhile P cs @ filter P (dropWhile P cs)"
  by (induction cs) simp_all

lemma digit_runs_concat: "concat (digit_runs s) = filter is_digit s"
proof (induction s rule: digit_runs.induct)
  case (1 s)
  show ?case
  proof (cases "dropWhile (\<lambda>c. \<not> is_digit c) s")
    case Nil
    then have "\<forall>x \<in> set s. \<not> is_digit x"
      by (simp add: dropWhile_eq_Nil_conv)
    then have "filter is_digit s = []"
      by (simp add: filter_empty_conv)
    then show ?thesis
      by (subst digit_runs.simps, subst Nil) simp
  next
    case (Cons c cs)
    have c: "is_digit c"
      using hd_dropWhile [of "\<lambda>c. \<not> is_digit c" s] Cons by simp
    have "s = takeWhile (\<lambda>c. \<not> is_digit c) s @ c # cs"
      using takeWhile_dropWhile_id [of "\<lambda>c. \<not> is_digit c" s] Cons by simp
    then have "filter is_digit s = filter is_digit (takeWhile (\<lambda>c. \<not> is_digit c) s) @ filter is_digit (c # cs)"
      by (metis filter_append)
    also have "filter is_digit (takeWhile (\<lambda>c. \<not> is_digit c) s) = []"
      by (auto simp: filter_empty_conv dest: set_takeWhileD)
    also have "filter is_digit (c # cs) = c # filter is_digit cs"
      using c by simp
    also have "filter is_digit cs = takeWhile is_digit cs @ filter is_digit (dropWhile is_digit cs)"
      by (rule filter_split_run)
    finally have "filter is_digit s = c # takeWhile is_digit cs @ concat (digit_runs (dropWhile is_digit cs))"
      using "1.IH" [OF Cons] by simp
    moreover have "digit_runs s = (c # takeWhile is_digit cs) # digit_runs (dropWhile is_digit cs)"
      by (subst digit_runs.simps, subst Cons) simp
    ultimately show ?thesis
      by simp
  qed
qed

lemma digit_runs_single:
  assumes "\<not> list_ex is_digit pre" and "d \<noteq> []" and "list_all is_digit d" and "\<not> list_ex is_digit post"
  shows "digit_runs (pre @ d @ post) = [d]"
proof -
  from assms(2) obtain c d' where d: "d = c # d'"
    by (cases d) auto
  with assms(3) have c: "is_digit c" and d': "\<forall>x \<in> set d'. is_digit x"
    by (simp_all add: list_all_iff)
  have a: "dropWhile (\<lambda>c. \<not> is_digit c) (pre @ d @ post) = c # (d' @ post)"
    using assms(1) c by (simp add: list_ex_iff d)
  have b: "takeWhile is_digit (d' @ post) = d'"
    using d' assms(4) by (cases post) (simp_all add: list_ex_iff)
  have e: "dropWhile is_digit (d' @ post) = post"
    using d' assms(4) by (cases post) (simp_all add: list_ex_iff)
  show ?thesis
    by (subst digit_runs.simps, subst a) (simp add: b e d digit_runs_no_digit [OF assms(4)])
qed

lemma masked_accept:
  assumes "list_all is_digit d" and "length d = 4"
    and "\<not> list_ex is_digit pre" and "\<not> list_ex is_digit post"
  shows "normalize_masked (pre @ d @ post) = Some d"
proof -
  from assms(2) have "d \<noteq> []" by auto
  from digit_runs_single [OF assms(3) this assms(1) assms(4)] assms(2) show ?thesis
    by (simp add: normalize_masked_def)
qed

lemma masked_Some: "normalize_masked s = Some x \<Longrightarrow> length (filter is_digit s) = 4"
proof -
  assume "normalize_masked s = Some x"
  then have "digit_runs s = [x] \<and> length x = 4"
    by (auto simp: normalize_masked_def split: list.splits if_splits)
  with digit_runs_concat [of s] show ?thesis
    by simp
qed

lemma masked_reject_none: "\<not> list_ex is_digit s \<Longrightarrow> normalize_masked s = None"
  by (simp add: normalize_masked_def digit_runs_no_digit)

lemma masked_reject_long:
  assumes "list_all is_digit d" and "4 < length d"
  shows "normalize_masked (pre @ d @ post) = None"
proof (cases "normalize_masked (pre @ d @ post)")
  case None
  then show ?thesis .
next
  case (Some x)
  from masked_Some [OF Some] have "length (filter is_digit (pre @ d @ post)) = 4" .
  moreover have "filter is_digit d = d"
    using assms(1) by (simp add: filter_id_conv list_all_iff)
  ultimately show ?thesis
    using assms(2) by simp
qed

lemma digit_plain:
  assumes "is_digit x"
  shows "\<not> is_space x" and "lower x = x"
    and "x \<noteq> 0x62" and "x \<noteq> 0x63" and "x \<noteq> 0x70" and "x \<noteq> 0x74"
  using assms unfolding is_digit_def is_space_def lower_def
  by (auto; unat_arith)+

lemma collapse_plain: "\<forall>c \<in> set d. \<not> is_space c \<Longrightarrow> collapse d = d"
  by (induction d) simp_all

lemma unspace_plain: "\<forall>c \<in> set d. \<not> is_space c \<Longrightarrow> unspace d = d"
  by (induction d) simp_all

lemma trim_plain: "\<forall>c \<in> set d. \<not> is_space c \<Longrightarrow> trim d = d"
proof -
  assume a: "\<forall>c \<in> set d. \<not> is_space c"
  then have "dropWhile is_space d = d"
    by (cases d) simp_all
  moreover from a have "dropWhile is_space (rev d) = rev d"
    by (cases "rev d") (simp, metis dropWhile.simps(2) list.set_intros(1) set_rev)
  ultimately show ?thesis
    by (simp add: trim_def)
qed

lemma strip_label_digits: "list_all is_digit d \<Longrightarrow> strip_label d = d"
proof (cases d)
  case Nil
  then show ?thesis
    by (simp add: strip_label_def labels_def has_label_def js_def)
next
  case (Cons x xs)
  assume "list_all is_digit d"
  with Cons have "is_digit x" by simp
  from digit_plain [OF this] have "find (\<lambda>l. has_label l d) labels = None"
    by (simp add: Cons labels_def js_def has_label_Cons lower_def)
  then show ?thesis
    by (simp add: strip_label_def)
qed

lemma displayed_digits: "list_all is_digit d \<Longrightarrow> displayed d = d"
proof -
  assume a: "list_all is_digit d"
  then have "\<forall>c \<in> set d. \<not> is_space c"
    using digit_plain(1) by (auto simp: list_all_iff)
  then show ?thesis
    by (simp add: displayed_def strip_label_digits [OF a] collapse_plain unspace_plain trim_plain)
qed

text \<open>
  Claim C6. A span whose digits are exactly four consecutive digits normalizes to these
  four digits, and rendering the normalized value with \<open>cleanText\<close> gives the same
  four digits back, unchanged. A span with no digit is rejected, and so is a span with
  more than four consecutive digits.
\<close>

theorem masked_digits_roundtrip:
  "(list_all is_digit d \<and> length d = 4 \<and> \<not> list_ex is_digit pre \<and> \<not> list_ex is_digit post
      \<longrightarrow> normalize p MaskedDigits (pre @ d @ post) = Some d \<and> cleanText (Str d) = Inr d)
   \<and> (\<not> list_ex is_digit s \<longrightarrow> normalize p MaskedDigits s = None)
   \<and> (list_all is_digit d' \<and> 4 < length d' \<longrightarrow> normalize p MaskedDigits (pre' @ d' @ post') = None)"
  by (simp add: normalize_def masked_accept masked_reject_none masked_reject_long
        cleanText_Str displayed_digits)

theorem masked_digits_roundtrip_witness:
  "normalize example_params MaskedDigits (js ''Card ending 4532'') = Some (js ''4532'')
   \<and> cleanText (Str (js ''4532'')) = Inr (js ''4532'')
   \<and> normalize example_params MaskedDigits (js ''N/A'') = None
   \<and> normalize example_params MaskedDigits (js ''no 12345678 '') = None"
  using masked_digits_roundtrip [of "js ''4532''" "js ''Card ending ''" "[]" example_params
          "js ''N/A''" "js ''12345678''" "js ''no ''" "js '' ''"]
  by (simp add: js_def is_digit_def)

section \<open>The five field keys\<close>

lemma bind_err_simps:
  "bind_err (Inl e) f = Inl e" "bind_err (Inr a) f = f a"
  by (simp_all add: bind_err_def)

lemma bind_err_assoc: "bind_err (bind_err x f) g = bind_err x (\<lambda>a. bind_err (f a) g)"
  by (cases x) (simp_all add: bind_err_simps)

lemma render_keys:
  "truthy v \<Longrightarrow>
     render v = bind_err (collect (map (\<lambda>k. bind_err (field_value v k) cleanText) field_keys))
                  (\<lambda>ts. Inr (Card (zip ui_labels ts)))"
  by (simp add: render_def row_def field_keys_def ui_labels_def bind_err_assoc bind_err_simps)

lemma cleanText_Null: "cleanText Null = Inr []"
  by (simp add: cleanText_def)

lemma cleanText_field_json:
  "cleanText (get_opt (field_json fr) (js ''value'')) = Inr (shown fr)"
  by (cases "fvalue fr") (simp_all add: field_json_def shown_def cleanText_Null cleanText_Str js_def)

lemma render_result:
  "render (result_json \<lparr>bank = b, results = map (\<lambda>fs. (key fs, f fs)) field_specs\<rparr>)
     = Inr (Card (zip ui_labels (map (\<lambda>fs. shown (f fs)) field_specs)))"
proof -
  let ?v = "result_json \<lparr>bank = b, results = map (\<lambda>fs. (key fs, f fs)) field_specs\<rparr>"
  have t: "truthy ?v"
    by (simp add: result_json_def)
  have g: "get_prop ?v (js ''fields'') = Inr (Obj (map (\<lambda>fs. (key fs, field_json (f fs))) field_specs))"
    by (simp add: result_json_def js_def)
  have "map (\<lambda>k. bind_err (field_value ?v k) cleanText) field_keys
          = map (\<lambda>fs. Inr (shown (f fs))) field_specs"
    unfolding field_value_def g bind_err_simps
    by (simp add: field_keys_def field_specs_def cleanText_field_json [symmetric])
       (simp add: js_def)
  then show ?thesis
    unfolding render_keys [OF t]
    by (simp add: field_specs_def bind_err_simps ui_labels_def)
qed

lemma example_card:
  "render (result_json example_result)
     = Inr (Card [(js ''Card Type:'', js ''Gold''), (js ''Card Last 4 Digits:'', js ''4532''),
                  (js ''Billing Cycle:'', []), (js ''Payment Due Date:'', []),
                  (js ''Total Balance Due:'', [])])"
  by code_simp

text \<open>
  Claim C1. The field mapping of an extraction result has exactly the five keys
  \<open>card_variant\<close>, \<open>card_last4\<close>, \<open>billing_cycle\<close>, \<open>payment_due_date\<close> and
  \<open>total_balance_due\<close>, each with a record of a value (a string or absent), a
  confidence between 0 and 1 and a snippet. The card the front end renders is a
  function of the \<open>value\<close> under these five keys of \<open>fields\<close> and of nothing else
  of the result: it is the five labels with the cleaned values, and on the result of
  the engine it shows what each field result holds.
\<close>

theorem five_field_keys:
  assumes "params_ok p"
  shows "(run_extractor p t = Success r \<longrightarrow>
            map fst (results r) = field_keys
          \<and> list_all (\<lambda>(k, fr). 0 \<le> confidence fr \<and> confidence fr \<le> 1) (results r)
          \<and> render (result_json r) = Inr (Card (zip ui_labels (map (\<lambda>(k, fr). shown fr) (results r)))))
       \<and> (truthy v \<longrightarrow>
            render v = bind_err (collect (map (\<lambda>k. bind_err (field_value v k) cleanText) field_keys))
                         (\<lambda>ts. Inr (Card (zip ui_labels ts))))"
proof -
  have "map fst (results r) = field_keys
          \<and> list_all (\<lambda>(k, fr). 0 \<le> confidence fr \<and> confidence fr \<le> 1) (results r)
          \<and> render (result_json r) = Inr (Card (zip ui_labels (map (\<lambda>(k, fr). shown fr) (results r))))"
    if "run_extractor p t = Success r"
  proof -
    from that have r: "r = \<lparr>bank = bank_of p t,
         results = map (\<lambda>fs. (key fs, resolve p t (bank_of p t) fs)) field_specs\<rparr>"
      by (simp add: run_extractor_def split: if_splits)
    have 1: "map fst (results r) = field_keys"
      by (simp add: r field_specs_def field_keys_def)
    have 2: "list_all (\<lambda>(k, fr). 0 \<le> confidence fr \<and> confidence fr \<le> 1) (results r)"
      using resolve_confidence [OF assms] by (simp add: r list_all_iff)
    have 3: "render (result_json r) = Inr (Card (zip ui_labels (map (\<lambda>(k, fr). shown fr) (results r))))"
      unfolding r render_result by (simp add: comp_def)
    from 1 2 3 show ?thesis
      by simp
  qed
  then show ?thesis
    using render_keys by blast
qed

theorem five_field_keys_witness:
  "params_ok example_params
   \<and> run_extractor example_params (js ''x'') = Success example_result
   \<and> map fst (results example_result) = field_keys
   \<and> render (result_json example_result)
       = Inr (Card [(js ''Card Type:'', js ''Gold''), (js ''Card Last 4 Digits:'', js ''4532''),
                    (js ''Billing Cycle:'', []), (js ''Payment Due Date:'', []),
                    (js ''Total Balance Due:'', [])])"
proof -
  have e: "run_extractor example_params (js ''x'') = Success example_result"
    by (simp add: run_extractor_def example_result_def example_params_def js_def is_space_def)
  from five_field_keys [OF example_params_ok, of "js ''x''" example_result] e example_params_ok
  show ?thesis
    by (simp add: example_card)
qed

end
